theory Spec2Isabelle
  imports Complex_Main "HOL-Library.AList" "HOL-Library.Sublist"
begin

section \<open>SmartRx: the response normaliser and the validation rules of app.py\<close>

text \<open>
  The two request handlers of \<^verbatim>\<open>src/app.py\<close> that carry logic are
  \<^verbatim>\<open>analyze_prescription\<close> (lines 107 to 147: cleaning and parsing the text the
  extraction model returned) and \<^verbatim>\<open>validate_prescription\<close> (lines 150 to 192).
  Both work on untyped JSON, so the model does too.
\<close>

subsection \<open>Python values\<close>

text \<open>
  A Python \<^verbatim>\<open>float\<close> is an IEEE binary64 number. The model keeps the exact rational
  value of a finite float and the three special values; it does not keep the sign of
  zero, which Python's \<^verbatim>\<open>==\<close> and \<^verbatim>\<open><\<close> do not see either.
\<close>

datatype pyfloat = Fin rat | PInf | NInf | NaN

text \<open>
  What \<^verbatim>\<open>json.loads\<close> and \<^verbatim>\<open>request.json\<close> return: \<^verbatim>\<open>None\<close>, \<^verbatim>\<open>bool\<close>, \<^verbatim>\<open>int\<close>,
  \<^verbatim>\<open>float\<close>, \<^verbatim>\<open>str\<close>, \<^verbatim>\<open>list\<close> and \<^verbatim>\<open>dict\<close>. A dict is an association list in
  insertion order, read with \<^const>\<open>map_of\<close> and written with \<^const>\<open>AList.update\<close>
  (an existing key keeps its place, a new key goes to the end, as in Python).
  A string is a list of characters with code points below 256.
\<close>

datatype json =
    JNull
  | JBool bool
  | JInt int
  | JFloat pyfloat
  | JStr string
  | JArr "json list"
  | JObj "(string \<times> json) list"

type_synonym pydict = "(string \<times> json) list"

text \<open>Python's truth value of an object, as \<^verbatim>\<open>not x\<close> and \<^verbatim>\<open>if x\<close> test it.\<close>

fun truthy :: "json \<Rightarrow> bool" where
  "truthy JNull = False"
| "truthy (JBool b) = b"
| "truthy (JInt n) = (n \<noteq> 0)"
| "truthy (JFloat (Fin q)) = (q \<noteq> 0)"
| "truthy (JFloat _) = True"
| "truthy (JStr s) = (s \<noteq> [])"
| "truthy (JArr xs) = (xs \<noteq> [])"
| "truthy (JObj kvs) = (kvs \<noteq> [])"

text \<open>\<^verbatim>\<open>d.get(k)\<close> and \<^verbatim>\<open>d.get(k, default)\<close>.\<close>

definition py_get :: "pydict \<Rightarrow> string \<Rightarrow> json" where
  "py_get d k = (case map_of d k of None \<Rightarrow> JNull | Some v \<Rightarrow> v)"

definition py_get_default :: "pydict \<Rightarrow> string \<Rightarrow> json \<Rightarrow> json" where
  "py_get_default d k dflt = (case map_of d k of None \<Rightarrow> dflt | Some v \<Rightarrow> v)"

text \<open>\<^verbatim>\<open>len(x)\<close>: \<^const>\<open>None\<close> is the \<^verbatim>\<open>TypeError\<close> of an object without a length.\<close>

fun py_len :: "json \<Rightarrow> nat option" where
  "py_len (JStr s) = Some (length s)"
| "py_len (JArr xs) = Some (length xs)"
| "py_len (JObj kvs) = Some (length kvs)"
| "py_len _ = None"

text \<open>
  \<^verbatim>\<open>for med in x\<close>: the elements a \<^verbatim>\<open>for\<close> loop visits; a string yields its
  characters, a dict its keys, and \<^const>\<open>None\<close> is the \<^verbatim>\<open>TypeError\<close> of an object
  that is not iterable.
\<close>

fun py_iter :: "json \<Rightarrow> json list option" where
  "py_iter (JArr xs) = Some xs"
| "py_iter (JStr s) = Some (map (\<lambda>c. JStr [c]) s)"
| "py_iter (JObj kvs) = Some (map (\<lambda>kv. JStr (fst kv)) kvs)"
| "py_iter _ = None"

text \<open>
  \<^verbatim>\<open>x < t\<close> for a float \<^verbatim>\<open>t\<close>: Python compares an \<^verbatim>\<open>int\<close> (and a \<^verbatim>\<open>bool\<close>, which
  is an \<^verbatim>\<open>int\<close>) with a float by exact value; every comparison with \<^verbatim>\<open>nan\<close> is
  false; \<^const>\<open>None\<close> is the \<^verbatim>\<open>TypeError\<close> of an unordered pair of types.
\<close>

fun py_lt_float :: "json \<Rightarrow> rat \<Rightarrow> bool option" where
  "py_lt_float (JBool b) t = Some ((if b then 1 else 0) < t)"
| "py_lt_float (JInt n) t = Some (of_int n < t)"
| "py_lt_float (JFloat (Fin q)) t = Some (q < t)"
| "py_lt_float (JFloat NInf) t = Some True"
| "py_lt_float (JFloat PInf) t = Some False"
| "py_lt_float (JFloat NaN) t = Some False"
| "py_lt_float _ t = None"

subsection \<open>Rounding to binary64\<close>

text \<open>Round to the nearest integer, a tie to the even one.\<close>

definition round_half_even :: "rat \<Rightarrow> int" where
  "round_half_even q =
     (let f = \<lfloor>q\<rfloor>; d = q - of_int f
      in if d < 1 / 2 then f else if 1 / 2 < d then f + 1 else if even f then f else f + 1)"

definition pow2 :: "int \<Rightarrow> rat" where
  "pow2 e = (if 0 \<le> e then 2 ^ nat e else 1 / 2 ^ nat (- e))"

text \<open>The number of binary digits of a positive integer.\<close>

function bitlen :: "int \<Rightarrow> nat" where
  "bitlen n = (if n \<le> 0 then 0 else Suc (bitlen (n div 2)))"
  by pat_completeness auto
termination
  by (relation "measure nat") auto

text \<open>For \<open>0 < q\<close>, the \<open>e\<close> with \<open>2 ^ e \<le> q < 2 ^ (e + 1)\<close>.\<close>

definition binary_exponent :: "rat \<Rightarrow> int" where
  "binary_exponent q =
     (let (a, b) = quotient_of q;
          k = int (bitlen a) - int (bitlen b)
      in if pow2 k \<le> q then k else k - 1)"

text \<open>
  The binary64 number nearest to a rational (ties to even): 53 significant bits, the
  smallest quantum \<open>2 ^ - 1074\<close>, and overflow to infinity from \<open>2 ^ 1024\<close> on.
\<close>

definition b64 :: "rat \<Rightarrow> pyfloat" where
  "b64 q =
     (if q = 0 then Fin 0
      else let m = \<bar>q\<bar>;
               p = max (binary_exponent m - 52) (- 1074);
               r = of_int (round_half_even (m / pow2 p)) * pow2 p
           in if pow2 1024 \<le> r then (if 0 < q then PInf else NInf)
              else Fin (if 0 < q then r else - r))"

subsection \<open>The validation rules\<close>

text \<open>
  \<^verbatim>\<open>validation_results\<close> of \<^verbatim>\<open>validate_prescription\<close>: the dict with the keys
  \<^verbatim>\<open>is_valid\<close>, \<^verbatim>\<open>warnings\<close> and \<^verbatim>\<open>errors\<close> that the handler fills and returns.
\<close>

record validation_results =
  is_valid :: bool
  warnings :: "string list"
  errors :: "string list"

text \<open>
  Any exception inside the handler is caught by its \<^verbatim>\<open>except Exception\<close> and answered
  with status 500 and \<^verbatim>\<open>{'error': 'Validation failed', 'details': ...}\<close>; the text of
  \<^verbatim>\<open>details\<close> is the interpreter's message and is not modelled.
\<close>

datatype validate_error = Validation_failed

text \<open>
  The literal \<^verbatim>\<open>0.85\<close> of line 182 is the binary64 number nearest to 85/100.
\<close>

definition confidence_threshold :: rat where
  "confidence_threshold = 7656119366529843 / 9007199254740992"

text \<open>The decimal digits of an integer, as \<^verbatim>\<open>str\<close> prints an \<^verbatim>\<open>int\<close>.\<close>

function show_digits :: "int \<Rightarrow> string" where
  "show_digits n =
     (if n < 10 then [''0123456789'' ! nat n]
      else show_digits (n div 10) @ [''0123456789'' ! nat (n mod 10)])"
  by pat_completeness auto
termination
  by (relation "measure nat") auto

definition show_int :: "int \<Rightarrow> string" where
  "show_int i = (if i < 0 then CHR ''-'' # show_digits (- i) else show_digits i)"

text \<open>
  What an f-string puts for \<^verbatim>\<open>{x}\<close>, that is \<^verbatim>\<open>str(x)\<close>. The text of a float, a list
  or a dict is the interpreter's \<^verbatim>\<open>repr\<close>, which is not part of the repository: it
  is the parameter \<open>repr\<close>.
\<close>

fun py_str :: "(json \<Rightarrow> string) \<Rightarrow> json \<Rightarrow> string" where
  "py_str repr (JStr s) = s"
| "py_str repr JNull = ''None''"
| "py_str repr (JBool b) = (if b then ''True'' else ''False'')"
| "py_str repr (JInt n) = show_int n"
| "py_str repr v = repr v"

text \<open>Lines 155 to 166: the fresh result and the two rules on the names.\<close>

definition check_names :: "pydict \<Rightarrow> validation_results" where
  "check_names dat =
     (let vr0 = \<lparr>is_valid = True, warnings = [], errors = []\<rparr>;
          vr1 = (if \<not> truthy (py_get dat ''patient_name'')
                 then vr0\<lparr>warnings := warnings vr0 @ [''Patient name is missing'']\<rparr>
                 else vr0)
      in if \<not> truthy (py_get dat ''doctor_name'')
         then vr1\<lparr>warnings := warnings vr1 @ [''Doctor name is missing'']\<rparr>
         else vr1)"

text \<open>
  Lines 168 to 170: \<^verbatim>\<open>not data.get('medications') or len(data['medications']) == 0\<close>.
  The second operand is evaluated only when the first is false, and then the key is
  present.
\<close>

definition no_medications :: "pydict \<Rightarrow> validate_error + bool" where
  "no_medications dat =
     (if \<not> truthy (py_get dat ''medications'') then Inr True
      else case py_len (py_get dat ''medications'') of
             None \<Rightarrow> Inl Validation_failed
           | Some n \<Rightarrow> Inr (n = 0))"

definition check_any_medication ::
  "pydict \<Rightarrow> validation_results \<Rightarrow> validate_error + validation_results"
where
  "check_any_medication dat vr =
     (case no_medications dat of
        Inl e \<Rightarrow> Inl e
      | Inr none \<Rightarrow>
          Inr (if none
               then vr\<lparr>errors := errors vr @ [''No medications found''], is_valid := False\<rparr>
               else vr))"

text \<open>Lines 174 to 179: the body of the loop, for one \<^verbatim>\<open>med\<close>.\<close>

fun check_medication ::
  "(json \<Rightarrow> string) \<Rightarrow> json \<Rightarrow> validation_results \<Rightarrow> validate_error + validation_results"
where
  "check_medication repr (JObj med) vr =
     (let vr1 = (if \<not> truthy (py_get med ''name'')
                 then vr\<lparr>errors := errors vr @ [''Medication name missing''],
                         is_valid := False\<rparr>
                 else vr);
          vr2 = (if \<not> truthy (py_get med ''dosage'')
                 then vr1\<lparr>warnings := warnings vr1 @
                        [''Dosage missing for '' @
                         py_str repr (py_get_default med ''name'' (JStr ''unknown medication''))]\<rparr>
                 else vr1)
      in Inr vr2)"
| "check_medication repr _ vr = Inl Validation_failed"

text \<open>Line 173: the loop; an exception in one iteration ends the handler.\<close>

fun check_medications ::
  "(json \<Rightarrow> string) \<Rightarrow> json list \<Rightarrow> validation_results \<Rightarrow> validate_error + validation_results"
where
  "check_medications repr [] vr = Inr vr"
| "check_medications repr (med # meds) vr =
     (case check_medication repr med vr of
        Inl e \<Rightarrow> Inl e
      | Inr vr' \<Rightarrow> check_medications repr meds vr')"

text \<open>Lines 182 and 183: \<^verbatim>\<open>data.get('confidence_score', 0) < 0.85\<close>.\<close>

definition check_confidence ::
  "pydict \<Rightarrow> validation_results \<Rightarrow> validate_error + validation_results"
where
  "check_confidence dat vr =
     (case py_lt_float (py_get_default dat ''confidence_score'' (JInt 0))
             confidence_threshold of
        None \<Rightarrow> Inl Validation_failed
      | Some low \<Rightarrow>
          Inr (if low
               then vr\<lparr>warnings := warnings vr @
                      [''Low confidence score - manual review recommended'']\<rparr>
               else vr))"

text \<open>
  \<^verbatim>\<open>validate_prescription\<close>, lines 153 to 192, on the parsed request body \<open>data\<close>.
  \<^verbatim>\<open>data.get\<close> exists only on a dict; on any other body it raises. The loop of
  line 173 runs over \<^verbatim>\<open>data.get('medications', [])\<close>.
\<close>

fun validate_prescription ::
  "(json \<Rightarrow> string) \<Rightarrow> json \<Rightarrow> validate_error + validation_results"
where
  "validate_prescription repr (JObj dat) =
     (case check_any_medication dat (check_names dat) of
        Inl e \<Rightarrow> Inl e
      | Inr vr3 \<Rightarrow>
          (case py_iter (py_get_default dat ''medications'' (JArr [])) of
             None \<Rightarrow> Inl Validation_failed
           | Some meds \<Rightarrow>
               (case check_medications repr meds vr3 of
                  Inl e \<Rightarrow> Inl e
                | Inr vr4 \<Rightarrow> check_confidence dat vr4)))"
| "validate_prescription repr _ = Inl Validation_failed"

subsection \<open>Text operations\<close>

text \<open>
  \<^verbatim>\<open>str.isspace\<close> on the code points below 256: tab, line feed, vertical tab, form
  feed, carriage return, the four separators 28 to 31, space, next line (133) and
  no-break space (160).
\<close>

definition isspace :: "char \<Rightarrow> bool" where
  "isspace c = (of_char c \<in> {9, 10, 11, 12, 13, 28, 29, 30, 31, 32, 133, 160 :: nat})"

text \<open>\<^verbatim>\<open>s.strip()\<close>, \<^verbatim>\<open>s.startswith(p)\<close> and \<^verbatim>\<open>s.endswith(p)\<close>.\<close>

definition py_strip :: "string \<Rightarrow> string" where
  "py_strip s = rev (dropWhile isspace (rev (dropWhile isspace s)))"

definition startswith :: "string \<Rightarrow> string \<Rightarrow> bool" where
  "startswith s p = prefix p s"

definition endswith :: "string \<Rightarrow> string \<Rightarrow> bool" where
  "endswith s p = suffix p s"

subsection \<open>The response normaliser\<close>

text \<open>
  Lines 107 to 117: trim, drop a leading \<^verbatim>\<open>```json\<close>, then a leading \<^verbatim>\<open>```\<close>, then
  a trailing \<^verbatim>\<open>```\<close>, and trim again. \<^verbatim>\<open>s[7:]\<close> is \<open>drop 7 s\<close> and \<^verbatim>\<open>s[:-3]\<close>
  is \<open>take (length s - 3) s\<close>.
\<close>

definition strip_fences :: "string \<Rightarrow> string" where
  "strip_fences response =
     (let t0 = py_strip response;
          t1 = (if startswith t0 ''```json'' then drop 7 t0 else t0);
          t2 = (if startswith t1 ''```'' then drop 3 t1 else t1);
          t3 = (if endswith t2 ''```'' then take (length t2 - 3) t2 else t2)
      in py_strip t3)"

text \<open>
  \<^verbatim>\<open>accuracy * 100\<close>: an \<^verbatim>\<open>int\<close> or \<^verbatim>\<open>bool\<close> gives an \<^verbatim>\<open>int\<close>, a float is
  multiplied by \<^verbatim>\<open>100.0\<close> and rounded to binary64, a string or a list is repeated,
  and \<^const>\<open>None\<close> is the \<^verbatim>\<open>TypeError\<close> of \<^verbatim>\<open>None\<close> and of a dict.
\<close>

fun times_100 :: "json \<Rightarrow> json option" where
  "times_100 (JBool b) = Some (JInt (if b then 100 else 0))"
| "times_100 (JInt n) = Some (JInt (n * 100))"
| "times_100 (JFloat (Fin q)) = Some (JFloat (b64 (q * 100)))"
| "times_100 (JFloat f) = Some (JFloat f)"
| "times_100 (JStr s) = Some (JStr (concat (replicate 100 s)))"
| "times_100 (JArr xs) = Some (JArr (concat (replicate 100 xs)))"
| "times_100 _ = None"

text \<open>
  \<^verbatim>\<open>round(x, 2)\<close>: an \<^verbatim>\<open>int\<close> is returned as it is; a finite float is rounded to
  two decimals on its exact value, a tie to the even digit, and the result rounded to
  binary64; an infinity or \<^verbatim>\<open>nan\<close> is returned as it is; \<^const>\<open>None\<close> is the
  \<^verbatim>\<open>TypeError\<close> of a type without \<^verbatim>\<open>__round__\<close>.
\<close>

fun round_2 :: "json \<Rightarrow> json option" where
  "round_2 (JBool b) = Some (JInt (if b then 1 else 0))"
| "round_2 (JInt n) = Some (JInt n)"
| "round_2 (JFloat (Fin q)) = Some (JFloat (b64 (of_int (round_half_even (q * 100)) / 100)))"
| "round_2 (JFloat f) = Some (JFloat f)"
| "round_2 _ = None"

text \<open>
  The two 500 answers of \<^verbatim>\<open>analyze_prescription\<close>: the one of
  \<^verbatim>\<open>except json.JSONDecodeError\<close>, whose \<^verbatim>\<open>raw_response\<close> is the text that was given
  to the parser, and the one of \<^verbatim>\<open>except Exception\<close>. The \<^verbatim>\<open>details\<close> text is the
  interpreter's message and is not modelled.
\<close>

datatype analyze_error =
    Failed_to_parse_response string
  | Failed_to_analyze_prescription

text \<open>
  How a call of \<^verbatim>\<open>json.loads\<close> can fail: with the \<^verbatim>\<open>JSONDecodeError\<close> of a text
  that is not JSON, or with another exception (the interpreter's limits on the depth
  of nesting and on the digits of an integer raise \<^verbatim>\<open>RecursionError\<close> and
  \<^verbatim>\<open>ValueError\<close>).
\<close>

datatype decode_error = JSONDecodeError | Other_exception

text \<open>
  \<^verbatim>\<open>analyze_prescription\<close> from line 107 on, where the extraction model has answered
  with \<open>response\<close>. \<open>loads\<close> is \<^verbatim>\<open>json.loads\<close> and \<open>now\<close> is
  \<^verbatim>\<open>datetime.utcnow().isoformat()\<close>. Item assignment on a parsed value that is not
  a dict raises \<^verbatim>\<open>TypeError\<close>.
\<close>

definition analyze_prescription ::
  "(string \<Rightarrow> decode_error + json) \<Rightarrow> string \<Rightarrow> string \<Rightarrow> analyze_error + pydict"
where
  "analyze_prescription loads now response =
     (let response_text = strip_fences response
      in case loads response_text of
           Inl JSONDecodeError \<Rightarrow> Inl (Failed_to_parse_response response_text)
         | Inl Other_exception \<Rightarrow> Inl Failed_to_analyze_prescription
         | Inr (JObj result) \<Rightarrow>
             (let r1 = AList.update ''analyzed_at'' (JStr now) result;
                  r2 = AList.update ''model_version'' (JStr ''gemini-1.5-flash'') r1;
                  accuracy = py_get_default r2 ''confidence_score'' (JFloat (Fin 0))
              in case times_100 accuracy of
                   None \<Rightarrow> Inl Failed_to_analyze_prescription
                 | Some a \<Rightarrow>
                     (case round_2 a of
                        None \<Rightarrow> Inl Failed_to_analyze_prescription
                      | Some pct \<Rightarrow> Inr (AList.update ''accuracy_percentage'' pct r2)))
         | Inr _ \<Rightarrow> Inl Failed_to_analyze_prescription)"

subsection \<open>A decoder for JSON texts\<close>

text \<open>
  \<^verbatim>\<open>json.loads\<close> belongs to Python's library, not to the repository, and
  \<^const>\<open>analyze_prescription\<close> takes it as a parameter. To run the handler on a
  concrete text, this is the library's decoder, as its scanner works: white space is
  space, tab, line feed and carriage return; a number without fraction and exponent is
  an \<^verbatim>\<open>int\<close>, any other a float, correctly rounded; \<^verbatim>\<open>NaN\<close>, \<^verbatim>\<open>Infinity\<close> and
  \<^verbatim>\<open>-Infinity\<close> are accepted; a string may not hold a control character; a key
  that occurs twice keeps its first place and its last value. Two limits: the escape
  \<^verbatim>\<open>\uXXXX\<close> of a code point from 256 on, which a \<^typ>\<open>char\<close> cannot hold, is
  refused; and the interpreter's bounds on nesting and on the digits of an integer are
  not there, so that \<^const>\<open>Other_exception\<close> is never the answer.
\<close>

definition json_ws :: "char \<Rightarrow> bool" where
  "json_ws c = (of_char c \<in> {32, 9, 10, 13 :: nat})"

definition skip_ws :: "string \<Rightarrow> string" where
  "skip_ws s = dropWhile json_ws s"

definition is_digit :: "char \<Rightarrow> bool" where
  "is_digit c = (48 \<le> (of_char c :: nat) \<and> (of_char c :: nat) \<le> 57)"

definition digits_val :: "string \<Rightarrow> int" where
  "digits_val ds = foldl (\<lambda>a c. 10 * a + (of_char c - 48)) 0 ds"

definition hex_val :: "char \<Rightarrow> nat option" where
  "hex_val c =
     (let n = (of_char c :: nat)
      in if 48 \<le> n \<and> n \<le> 57 then Some (n - 48)
         else if 97 \<le> n \<and> n \<le> 102 then Some (n - 87)
         else if 65 \<le> n \<and> n \<le> 70 then Some (n - 55)
         else None)"

text \<open>The character a backslash escape stands for.\<close>

definition unescape :: "char \<Rightarrow> char option" where
  "unescape c =
     (if c = CHR 0x22 \<or> c = CHR 0x5C \<or> c = CHR ''/'' then Some c
      else if c = CHR ''b'' then Some (CHR 0x08)
      else if c = CHR ''f'' then Some (CHR 0x0C)
      else if c = CHR ''n'' then Some (CHR 0x0A)
      else if c = CHR ''r'' then Some (CHR 0x0D)
      else if c = CHR ''t'' then Some (CHR 0x09)
      else None)"

datatype scan_state = Plain | Escaped | Hex nat nat

text \<open>
  The body of a string, after its opening quote: the decoded string and the text after
  the closing quote. \<open>Hex k v\<close> expects \<open>k\<close> more hexadecimal digits of an escape
  whose digits so far make \<open>v\<close>.
\<close>

fun scan_string :: "scan_state \<Rightarrow> string \<Rightarrow> string \<Rightarrow> (string \<times> string) option" where
  "scan_string st acc [] = None"
| "scan_string Plain acc (c # cs) =
     (if c = CHR 0x22 then Some (rev acc, cs)
      else if c = CHR 0x5C then scan_string Escaped acc cs
      else if (of_char c :: nat) < 32 then None
      else scan_string Plain (c # acc) cs)"
| "scan_string Escaped acc (c # cs) =
     (if c = CHR ''u'' then scan_string (Hex 4 0) acc cs
      else case unescape c of
             None \<Rightarrow> None
           | Some d \<Rightarrow> scan_string Plain (d # acc) cs)"
| "scan_string (Hex k v) acc (c # cs) =
     (case hex_val c of
        None \<Rightarrow> None
      | Some d \<Rightarrow>
          (if k = 1
           then (if 16 * v + d < 256 then scan_string Plain (char_of (16 * v + d) # acc) cs
                 else None)
           else scan_string (Hex (k - 1) (16 * v + d)) acc cs))"

definition pow10 :: "int \<Rightarrow> rat" where
  "pow10 e = (if 0 \<le> e then 10 ^ nat e else 1 / 10 ^ nat (- e))"

text \<open>The exponent part \<^verbatim>\<open>[eE][-+]?[0-9]+\<close> at the head of a text, and the rest.\<close>

definition scan_exponent :: "string \<Rightarrow> (int \<times> string) option" where
  "scan_exponent s =
     (case s of
        [] \<Rightarrow> None
      | c # cs \<Rightarrow>
          (if c = CHR ''e'' \<or> c = CHR ''E''
           then (let (sg, ds) =
                       (case cs of
                          [] \<Rightarrow> (1, [])
                        | d # ds' \<Rightarrow>
                            (if d = CHR ''+'' then (1, ds')
                             else if d = CHR ''-'' then (- 1, ds')
                             else (1, cs)))
                 in if takeWhile is_digit ds = [] then None
                    else Some (sg * digits_val (takeWhile is_digit ds), dropWhile is_digit ds))
           else None))"

text \<open>
  A number \<^verbatim>\<open>-?(0|[1-9][0-9]*)(\.[0-9]+)?([eE][-+]?[0-9]+)?\<close> at the head of a
  text: the longest match, its value, and the rest.
\<close>

definition scan_number :: "string \<Rightarrow> (json \<times> string) option" where
  "scan_number s =
     (let (sg, s1) = (case s of
                        [] \<Rightarrow> (1, [])
                      | c # cs \<Rightarrow> (if c = CHR ''-'' then (- 1, cs) else (1, s)))
      in case takeWhile is_digit s1 of
           [] \<Rightarrow> None
         | d # ds \<Rightarrow>
             (let ip = (if d = CHR ''0'' then [d] else d # ds);
                  r1 = drop (length ip) s1;
                  fp = (case r1 of
                          [] \<Rightarrow> []
                        | c # cs \<Rightarrow> (if c = CHR ''.'' then takeWhile is_digit cs else []));
                  r2 = (if fp = [] then r1 else drop (Suc (length fp)) r1);
                  m = of_int (sg * digits_val (ip @ fp)) / 10 ^ length fp
              in case scan_exponent r2 of
                   None \<Rightarrow>
                     (if fp = [] then Some (JInt (sg * digits_val ip), r2)
                      else Some (JFloat (b64 m), r2))
                 | Some (e, r3) \<Rightarrow> Some (JFloat (b64 (m * pow10 e)), r3)))"

text \<open>A value that is neither a string, an object nor an array, at the head of a text.\<close>

definition scan_literal :: "string \<Rightarrow> (json \<times> string) option" where
  "scan_literal s =
     (if prefix ''null'' s then Some (JNull, drop 4 s)
      else if prefix ''true'' s then Some (JBool True, drop 4 s)
      else if prefix ''false'' s then Some (JBool False, drop 5 s)
      else if prefix ''NaN'' s then Some (JFloat NaN, drop 3 s)
      else if prefix ''Infinity'' s then Some (JFloat PInf, drop 8 s)
      else if prefix ''-Infinity'' s then Some (JFloat NInf, drop 9 s)
      else scan_number s)"

text \<open>
  The scanner, with fuel for its nesting: \<open>parse_value\<close> reads one value at the head
  of the text, \<open>parse_array\<close> the elements of an array from its first one on,
  \<open>parse_object\<close> the members of an object from its first key on.
\<close>

fun parse_value :: "nat \<Rightarrow> string \<Rightarrow> (json \<times> string) option"
  and parse_array :: "nat \<Rightarrow> json list \<Rightarrow> string \<Rightarrow> (json \<times> string) option"
  and parse_object :: "nat \<Rightarrow> pydict \<Rightarrow> string \<Rightarrow> (json \<times> string) option"
where
  "parse_value 0 s = None"
| "parse_value (Suc n) s =
     (case s of
        [] \<Rightarrow> None
      | c # cs \<Rightarrow>
          (if c = CHR 0x22
           then (case scan_string Plain [] cs of
                   None \<Rightarrow> None
                 | Some (t, r) \<Rightarrow> Some (JStr t, r))
           else if c = CHR ''{''
           then (case skip_ws cs of
                   [] \<Rightarrow> None
                 | d # ds \<Rightarrow> (if d = CHR ''}'' then Some (JObj [], ds)
                              else parse_object n [] (d # ds)))
           else if c = CHR ''[''
           then (case skip_ws cs of
                   [] \<Rightarrow> None
                 | d # ds \<Rightarrow> (if d = CHR '']'' then Some (JArr [], ds)
                              else parse_array n [] (d # ds)))
           else scan_literal s))"
| "parse_array 0 acc s = None"
| "parse_array (Suc n) acc s =
     (case parse_value n s of
        None \<Rightarrow> None
      | Some (v, r) \<Rightarrow>
          (case skip_ws r of
             [] \<Rightarrow> None
           | d # ds \<Rightarrow>
               (if d = CHR '']'' then Some (JArr (acc @ [v]), ds)
                else if d = CHR '','' then parse_array n (acc @ [v]) (skip_ws ds)
                else None)))"
| "parse_object 0 acc s = None"
| "parse_object (Suc n) acc s =
     (case s of
        [] \<Rightarrow> None
      | q # qs \<Rightarrow>
          (if q \<noteq> CHR 0x22 then None
           else case scan_string Plain [] qs of
                  None \<Rightarrow> None
                | Some (k, r) \<Rightarrow>
                    (case skip_ws r of
                       [] \<Rightarrow> None
                     | c # cs \<Rightarrow>
                         (if c \<noteq> CHR '':'' then None
                          else case parse_value n (skip_ws cs) of
                                 None \<Rightarrow> None
                               | Some (v, r') \<Rightarrow>
                                   (case skip_ws r' of
                                      [] \<Rightarrow> None
                                    | d # ds \<Rightarrow>
                                        (if d = CHR ''}''
                                         then Some (JObj (AList.update k v acc), ds)
                                         else if d = CHR '',''
                                         then parse_object n (AList.update k v acc) (skip_ws ds)
                                         else None))))))"

text \<open>
  \<^verbatim>\<open>json.loads(s)\<close>: one value between optional white space, and nothing after it.
  The fuel is never used up: each nested call has a shorter text, or the same text and
  a value where an array or an object stood (lemma \<open>json_loads_fuel\<close> below).
\<close>

definition json_loads :: "string \<Rightarrow> decode_error + json" where
  "json_loads s =
     (case parse_value (2 * length s + 1) (skip_ws s) of
        None \<Rightarrow> Inl JSONDecodeError
      | Some (v, r) \<Rightarrow> (if skip_ws r = [] then Inr v else Inl JSONDecodeError))"

subsection \<open>Records of the specification\<close>

text \<open>
  The specification's data model types the fields the handlers read: a name is a
  string, \<^verbatim>\<open>confidence_score\<close> is a number, a medication entry is an object. These
  predicates say so of a JSON value; the properties below use them as hypotheses.
\<close>

fun is_number :: "json \<Rightarrow> bool" where
  "is_number (JInt n) = True"
| "is_number (JFloat f) = True"
| "is_number _ = False"

fun nonempty_text :: "json \<Rightarrow> bool" where
  "nonempty_text (JStr s) = (s \<noteq> [])"
| "nonempty_text _ = False"

text \<open>
  A request body that is a record of the data model, fields present or not:
  \<^verbatim>\<open>medications\<close>, when present, is a list of objects, and \<^verbatim>\<open>confidence_score\<close>,
  when present, is a number.
\<close>

fun medication_object :: "json \<Rightarrow> bool" where
  "medication_object (JObj med) = True"
| "medication_object _ = False"

fun prescription_record :: "json \<Rightarrow> bool" where
  "prescription_record (JObj dat) =
     ((case map_of dat ''medications'' of
         None \<Rightarrow> True
       | Some (JArr meds) \<Rightarrow> list_all medication_object meds
       | Some _ \<Rightarrow> False)
      \<and> is_number (py_get_default dat ''confidence_score'' (JInt 0)))"
| "prescription_record _ = False"

text \<open>A medication entry with a non-empty \<^verbatim>\<open>name\<close> and a non-empty \<^verbatim>\<open>dosage\<close>.\<close>

fun complete_entry :: "json \<Rightarrow> bool" where
  "complete_entry (JObj med) =
     (nonempty_text (py_get med ''name'') \<and> nonempty_text (py_get med ''dosage''))"
| "complete_entry _ = False"

text \<open>\<^verbatim>\<open>confidence_score >= 0.85\<close>, which \<^verbatim>\<open>nan\<close> does not satisfy.\<close>

fun at_least_threshold :: "json \<Rightarrow> bool" where
  "at_least_threshold (JInt n) = (confidence_threshold \<le> of_int n)"
| "at_least_threshold (JFloat (Fin q)) = (confidence_threshold \<le> q)"
| "at_least_threshold (JFloat PInf) = True"
| "at_least_threshold _ = False"

text \<open>The three keys that \<^const>\<open>analyze_prescription\<close> itself writes.\<close>

definition owned_keys :: "string set" where
  "owned_keys = {''analyzed_at'', ''model_version'', ''accuracy_percentage''}"

text \<open>A \<^verbatim>\<open>confidence_score\<close> in the range \<^verbatim>\<open>[0.0, 1.0]\<close> of the data model.\<close>

fun in_unit_interval :: "json \<Rightarrow> bool" where
  "in_unit_interval (JInt n) = (0 \<le> n \<and> n \<le> 1)"
| "in_unit_interval (JFloat (Fin q)) = (0 \<le> q \<and> q \<le> 1)"
| "in_unit_interval _ = False"

text \<open>
  A printer to run \<^const>\<open>validate_prescription\<close> with on inputs that have no float,
  list or dict to print in a message.
\<close>

definition repr_placeholder :: "json \<Rightarrow> string" where
  "repr_placeholder v = ''<repr>''"

subsection \<open>Payloads and fences\<close>

text \<open>
  The raw text of the specification's Scenario A: the object
  \<^verbatim>\<open>{"patient_name":"","medications":[]}\<close> on a line of its own between a
  \<^verbatim>\<open>```json\<close> fence and a closing fence.
\<close>

definition scenario_A :: string where
  \<open>scenario_A = ''```json'' @ [CHR 0x0A] @ ''{"patient_name":"","medications":[]}'' @ [CHR 0x0A] @ ''```''\<close>

text \<open>
  A payload wrapped in a fence: the opening fence with or without the language tag,
  white space \<open>w1\<close> (a line break, or nothing), the payload, white space \<open>w2\<close>, and
  the closing fence or nothing.
\<close>

datatype fence_style = Tagged | Bare

fun opening_fence :: "fence_style \<Rightarrow> string" where
  "opening_fence Tagged = ''```json''"
| "opening_fence Bare = ''```''"

definition fenced :: "fence_style \<Rightarrow> bool \<Rightarrow> string \<Rightarrow> string \<Rightarrow> string \<Rightarrow> string" where
  "fenced style closing w1 w2 p =
     opening_fence style @ w1 @ p @ w2 @ (if closing then ''```'' else [])"

text \<open>
  A payload without fence markers: once trimmed, it neither starts nor ends with
  \<^verbatim>\<open>```\<close>.
\<close>

definition clean_payload :: "string \<Rightarrow> bool" where
  "clean_payload p =
     (\<not> startswith (py_strip p) ''```'' \<and> \<not> endswith (py_strip p) ''```'')"

text \<open>A text that \<^verbatim>\<open>strip()\<close> leaves as it is.\<close>

definition trimmed :: "string \<Rightarrow> bool" where
  "trimmed q = (q = [] \<or> (\<not> isspace (hd q) \<and> \<not> isspace (last q)))"

section \<open>Properties\<close>

subsection \<open>Arithmetic of the model\<close>

lemma b64_threshold: "b64 (85 / 100) = Fin confidence_threshold"
  by code_simp

subsection \<open>The decoder's fuel\<close>

text \<open>
  Every scanner consumes at least one character, so the fuel that
  \<^const>\<open>json_loads\<close> gives is enough: more fuel gives the same answer.
\<close>

lemma skip_ws_length: "length (skip_ws s) \<le> length s"
  by (simp add: skip_ws_def length_dropWhile_le)

lemma skip_ws_Cons: "skip_ws s = d # ds \<Longrightarrow> length ds < length s"
  using skip_ws_length [of s] by simp

lemma scan_string_shorter:
  "scan_string st acc s = Some (t, r) \<Longrightarrow> length r < length s"
proof (induction s arbitrary: st acc)
  case Nil
  then show ?case by simp
next
  case (Cons c cs)
  then show ?case
    by (cases st) (fastforce split: if_splits option.splits)+
qed

lemma scan_exponent_shorter:
  "scan_exponent s = Some (e, r) \<Longrightarrow> length r < length s"
proof -
  have d: "length (dropWhile is_digit xs) \<le> length xs" for xs
    by (rule length_dropWhile_le)
  assume "scan_exponent s = Some (e, r)"
  then show ?thesis
    using d
    by (auto simp: scan_exponent_def Let_def split: list.splits if_splits prod.splits
        intro: le_imp_less_Suc le_SucI)
qed


lemma scan_number_shorter:
  assumes "scan_number s = Some (v, r)"
  shows "length r < length s"
proof -
  obtain sg s1 where s1: "(case s of [] \<Rightarrow> (1, []) | c # cs \<Rightarrow>
      (if c = CHR ''-'' then (- 1, cs) else (1 :: int, s))) = (sg, s1)"
    by (cases "(case s of [] \<Rightarrow> (1, []) | c # cs \<Rightarrow>
      (if c = CHR ''-'' then (- 1, cs) else (1 :: int, s)))") auto
  then have ls1: "length s1 \<le> length s"
    by (auto split: list.splits if_splits)
  from assms s1 obtain d ds where tw: "takeWhile is_digit s1 = d # ds"
    by (auto simp: scan_number_def split: list.splits)
  define ip where "ip = (if d = CHR ''0'' then [d] else d # ds)"
  define r1 where "r1 = drop (length ip) s1"
  define fp where "fp = (case r1 of [] \<Rightarrow> [] | c # cs \<Rightarrow>
      (if c = CHR ''.'' then takeWhile is_digit cs else []))"
  define r2 where "r2 = (if fp = [] then r1 else drop (Suc (length fp)) r1)"
  have "length ip \<le> length (takeWhile is_digit s1)"
    by (simp add: ip_def tw)
  also have "\<dots> \<le> length s1" by (rule length_takeWhile_le)
  finally have "length ip \<le> length s1" .
  moreover have "0 < length ip" by (simp add: ip_def)
  ultimately have lr1: "length r1 < length s1" unfolding r1_def length_drop by linarith
  have lr2: "length r2 \<le> length r1" by (simp add: r2_def)
  from assms have "r = r2 \<or> (\<exists>e. scan_exponent r2 = Some (e, r))"
    by (auto simp: scan_number_def s1 tw Let_def ip_def r1_def fp_def r2_def
        split: option.splits if_splits)
  then have "length r \<le> length r2"
    by (auto dest: scan_exponent_shorter)
  with lr2 lr1 ls1 show ?thesis by simp
qed

lemma scan_literal_shorter:
  "scan_literal s = Some (v, r) \<Longrightarrow> length r < length s"
  by (auto simp: scan_literal_def prefix_def split: if_splits dest: scan_number_shorter)

lemma parse_shorter:
  "parse_value n s = Some (v, r) \<Longrightarrow> length r < length s"
  "parse_array n xs s = Some (v, r) \<Longrightarrow> length r < length s"
  "parse_object n kvs s = Some (v, r) \<Longrightarrow> length r < length s"
proof (induction n s and n xs s and n kvs s arbitrary: v r and v r and v r
    rule: parse_value_parse_array_parse_object.induct)
  case (1 s)
  then show ?case by simp
next
  case (2 n s)
  from "2.prems" obtain c cs where s: "s = c # cs" by (cases s) auto
  show ?case
  proof (cases "c = CHR 0x22")
    case True
    with "2.prems" s show ?thesis
      by (auto split: option.splits dest: scan_string_shorter)
  next
    case nq: False
    show ?thesis
    proof (cases "c = CHR ''{''")
      case True
      with "2.prems" s nq obtain d ds where sk: "skip_ws cs = d # ds"
        by (auto split: list.splits)
      show ?thesis
      proof (cases "d = CHR ''}''")
        case True
        with "2.prems" s nq \<open>c = CHR ''{''\<close> sk skip_ws_Cons [OF sk] show ?thesis by auto
      next
        case False
        with "2.prems" s nq \<open>c = CHR ''{''\<close> sk
        have "parse_object n [] (d # ds) = Some (v, r)" by simp
        from "2.IH"(1) [OF s nq \<open>c = CHR ''{''\<close> sk False this] skip_ws_Cons [OF sk] s
        show ?thesis by simp
      qed
    next
      case nb: False
      show ?thesis
      proof (cases "c = CHR ''[''")
        case True
        with "2.prems" s nq nb obtain d ds where sk: "skip_ws cs = d # ds"
          by (auto split: list.splits)
        show ?thesis
        proof (cases "d = CHR '']''")
          case True
          with "2.prems" s nq nb \<open>c = CHR ''[''\<close> sk skip_ws_Cons [OF sk] show ?thesis by auto
        next
          case False
          with "2.prems" s nq nb \<open>c = CHR ''[''\<close> sk
          have "parse_array n [] (d # ds) = Some (v, r)" by simp
          from "2.IH"(2) [OF s nq nb \<open>c = CHR ''[''\<close> sk False this] skip_ws_Cons [OF sk] s
          show ?thesis by simp
        qed
      next
        case False
        with "2.prems" s nq nb have "scan_literal s = Some (v, r)" by simp
        then show ?thesis by (rule scan_literal_shorter)
      qed
    qed
  qed
next
  case (3 xs s)
  then show ?case by simp
next
  case (4 n xs s)
  from "4.prems" obtain w r1 where pv: "parse_value n s = Some (w, r1)"
    by (auto split: option.splits)
  from "4.IH"(1) [OF this] have l1: "length r1 < length s" .
  from "4.prems" pv obtain d ds where sk: "skip_ws r1 = d # ds"
    by (auto split: list.splits)
  from skip_ws_Cons [OF sk] have l2: "length ds < length r1" .
  show ?case
  proof (cases "d = CHR '']''")
    case True
    with "4.prems" pv sk l1 l2 show ?thesis by auto
  next
    case False
    with "4.prems" pv sk have c: "d = CHR '',''"
      and rest: "parse_array n (xs @ [w]) (skip_ws ds) = Some (v, r)"
      by (auto split: if_splits)
    from "4.IH"(2) [OF pv refl sk False c rest]
    have "length r < length (skip_ws ds)" .
    with skip_ws_length [of ds] l1 l2 show ?thesis by simp
  qed
next
  case (5 kvs s)
  then show ?case by simp
next
  case (6 n kvs s)
  from "6.prems" obtain q qs where s: "s = q # qs" by (cases s) auto
  with "6.prems" have q: "\<not> q \<noteq> CHR 0x22" by (auto split: if_splits)
  from "6.prems" s q obtain k r0 where ss: "scan_string Plain [] qs = Some (k, r0)"
    by (auto split: option.splits)
  from scan_string_shorter [OF ss] have l0: "length r0 < length qs" .
  from "6.prems" s q ss obtain c cs where sk: "skip_ws r0 = c # cs"
    by (auto split: list.splits)
  from skip_ws_Cons [OF sk] have l1: "length cs < length r0" .
  from "6.prems" s q ss sk have col: "\<not> c \<noteq> CHR '':''" by (auto split: if_splits)
  from "6.prems" s q ss sk col obtain w r1 where
    pv: "parse_value n (skip_ws cs) = Some (w, r1)"
    by (auto split: option.splits)
  from "6.IH"(1) [OF s q ss refl sk col pv]
  have l2: "length r1 < length (skip_ws cs)" .
  from "6.prems" s q ss sk col pv obtain d ds where sk2: "skip_ws r1 = d # ds"
    by (auto split: list.splits)
  from skip_ws_Cons [OF sk2] have l3: "length ds < length r1" .
  note ls = l0 l1 l2 l3 skip_ws_length [of cs] s
  show ?case
  proof (cases "d = CHR ''}''")
    case True
    with "6.prems" s q ss sk col pv sk2 ls show ?thesis by auto
  next
    case False
    with "6.prems" s q ss sk col pv sk2 have c: "d = CHR '',''"
      and rest: "parse_object n (AList.update k w kvs) (skip_ws ds) = Some (v, r)"
      by (auto split: if_splits)
    from "6.IH"(2) [OF s q ss refl sk col pv refl sk2 False c rest]
    have "length r < length (skip_ws ds)" .
    with skip_ws_length [of ds] ls show ?thesis by simp
  qed
qed


lemma fuel_step:
  "(\<forall>s. 2 * length s < n \<longrightarrow> parse_value (Suc n) s = parse_value n s) \<and>
   (\<forall>xs s. 2 * length s + 1 < n \<longrightarrow> parse_array (Suc n) xs s = parse_array n xs s) \<and>
   (\<forall>kvs s. 2 * length s + 1 < n \<longrightarrow> parse_object (Suc n) kvs s = parse_object n kvs s)"
proof (induction n)
  case 0
  show ?case by simp
next
  case (Suc m)
  then have ihV: "\<And>s. 2 * length s < m \<Longrightarrow> parse_value (Suc m) s = parse_value m s"
    and ihA: "\<And>xs s. 2 * length s + 1 < m \<Longrightarrow> parse_array (Suc m) xs s = parse_array m xs s"
    and ihO: "\<And>kvs s. 2 * length s + 1 < m \<Longrightarrow>
                parse_object (Suc m) kvs s = parse_object m kvs s"
    by blast+
  have V: "parse_value (Suc (Suc m)) s = parse_value (Suc m) s" if h: "2 * length s < Suc m"
    for s
  proof (cases s)
    case Nil
    then show ?thesis by simp
  next
    case s: (Cons c cs)
    show ?thesis
    proof (cases "skip_ws cs")
      case Nil
      then show ?thesis by (simp add: s)
    next
      case sk: (Cons d ds)
      from skip_ws_length [of cs] sk h s have "2 * length (d # ds) + 1 < m" by simp
      from ihA [OF this] ihO [OF this] show ?thesis by (simp add: s sk)
    qed
  qed
  have A: "parse_array (Suc (Suc m)) xs s = parse_array (Suc m) xs s"
    if h: "2 * length s + 1 < Suc m" for xs s
  proof -
    from h have "2 * length s < m" by simp
    from ihV [OF this] have pv: "parse_value (Suc m) s = parse_value m s" .
    show ?thesis
    proof (cases "parse_value m s")
      case None
      with pv show ?thesis by simp
    next
      case (Some p)
      obtain w r1 where p: "p = (w, r1)" by (cases p)
      from parse_shorter(1) [of m s w r1] Some p have l1: "length r1 < length s" by simp
      show ?thesis
      proof (cases "skip_ws r1")
        case Nil
        with pv Some p show ?thesis by simp
      next
        case sk: (Cons d ds)
        from skip_ws_Cons [OF sk] skip_ws_length [of ds] l1 h
        have "2 * length (skip_ws ds) + 1 < m" by simp
        from ihA [OF this] pv Some p sk show ?thesis by simp
      qed
    qed
  qed
  have O: "parse_object (Suc (Suc m)) kvs s = parse_object (Suc m) kvs s"
    if h: "2 * length s + 1 < Suc m" for kvs s
  proof (cases s)
    case Nil
    then show ?thesis by simp
  next
    case s: (Cons q qs)
    show ?thesis
    proof (cases "scan_string Plain [] qs")
      case None
      then show ?thesis by (simp add: s)
    next
      case (Some p)
      obtain k r0 where p: "p = (k, r0)" by (cases p)
      from scan_string_shorter [of Plain "[]" qs k r0] Some p
      have l0: "length r0 < length qs" by simp
      show ?thesis
      proof (cases "skip_ws r0")
        case Nil
        with Some p show ?thesis by (simp add: s)
      next
        case sk: (Cons c cs)
        from skip_ws_Cons [OF sk] skip_ws_length [of cs] l0 h s
        have "2 * length (skip_ws cs) < m" by simp
        from ihV [OF this]
        have pv: "parse_value (Suc m) (skip_ws cs) = parse_value m (skip_ws cs)" .
        show ?thesis
        proof (cases "parse_value m (skip_ws cs)")
          case None
          with pv Some p sk show ?thesis by (simp add: s)
        next
          case v: (Some p')
          obtain w r1 where p': "p' = (w, r1)" by (cases p')
          from parse_shorter(1) [of m "skip_ws cs" w r1] v p'
          have l1: "length r1 < length (skip_ws cs)" by simp
          show ?thesis
          proof (cases "skip_ws r1")
            case Nil
            with pv Some p sk v p' show ?thesis by (simp add: s)
          next
            case sk2: (Cons d ds)
            from skip_ws_Cons [OF sk2] skip_ws_length [of ds] l1
              skip_ws_Cons [OF sk] skip_ws_length [of cs] l0 h s
            have "2 * length (skip_ws ds) + 1 < m" by simp
            from ihO [OF this] pv Some p sk v p' sk2 show ?thesis by (simp add: s)
          qed
        qed
      qed
    qed
  qed
  from V A O show ?case by blast
qed

lemma fuel_enough:
  "2 * length s < n \<Longrightarrow> parse_value (n + k) s = parse_value n s"
proof (induction k)
  case 0
  show ?case by simp
next
  case (Suc k)
  from Suc.prems have "2 * length s < n + k" by simp
  with fuel_step [of "n + k"] have "parse_value (Suc (n + k)) s = parse_value (n + k) s"
    by blast
  with Suc show ?case by simp
qed

lemma json_loads_fuel:
  assumes "2 * length s < n"
  shows "parse_value n (skip_ws s) = parse_value (2 * length s + 1) (skip_ws s)"
proof -
  from assms obtain k where n: "n = (2 * length s + 1) + k"
    using less_imp_add_positive [of "2 * length s" n] by (metis Suc_eq_plus1 add_Suc_shift less_iff_Suc_add)
  have "2 * length (skip_ws s) < 2 * length s + 1"
    using skip_ws_length [of s] by simp
  from fuel_enough [OF this, of k] n show ?thesis by simp
qed


subsection \<open>The validation rules\<close>

lemma check_medication_valid_iff:
  assumes "check_medication repr med vr = Inr vr'" and "is_valid vr = (errors vr = [])"
  shows "is_valid vr' = (errors vr' = [])"
  using assms by (cases med) (auto simp: Let_def split: if_splits)

lemma check_medications_valid_iff:
  "check_medications repr meds vr = Inr vr' \<Longrightarrow> is_valid vr = (errors vr = [])
   \<Longrightarrow> is_valid vr' = (errors vr' = [])"
proof (induction meds arbitrary: vr)
  case Nil
  then show ?case by simp
next
  case (Cons med meds)
  from Cons.prems(1) obtain vr1 where
    step: "check_medication repr med vr = Inr vr1" and
    rest: "check_medications repr meds vr1 = Inr vr'"
    by (auto split: sum.splits)
  from check_medication_valid_iff [OF step Cons.prems(2)]
  show ?case by (rule Cons.IH [OF rest])
qed

lemma check_names_valid: "is_valid (check_names dat)" "errors (check_names dat) = []"
  by (simp_all add: check_names_def Let_def)

lemma check_any_medication_valid_iff:
  "check_any_medication dat vr = Inr vr' \<Longrightarrow> is_valid vr = (errors vr = [])
   \<Longrightarrow> is_valid vr' = (errors vr' = [])"
  by (auto simp: check_any_medication_def split: sum.splits if_splits)

lemma check_confidence_same:
  "check_confidence dat vr = Inr vr' \<Longrightarrow> is_valid vr' = is_valid vr \<and> errors vr' = errors vr"
  by (auto simp: check_confidence_def split: option.splits if_splits)

text \<open>On a record of the data model the handler never fails.\<close>

lemma check_medication_object:
  "medication_object med \<Longrightarrow> \<exists>vr'. check_medication repr med vr = Inr vr'"
  by (cases med) (simp_all add: Let_def)

lemma check_medications_objects:
  "list_all medication_object meds \<Longrightarrow> \<exists>vr'. check_medications repr meds vr = Inr vr'"
proof (induction meds arbitrary: vr)
  case Nil
  then show ?case by simp
next
  case (Cons med meds)
  from Cons.prems have "medication_object med" "list_all medication_object meds" by simp_all
  from check_medication_object [OF this(1), of repr vr] obtain vr1 where
    "check_medication repr med vr = Inr vr1" ..
  with Cons.IH [OF \<open>list_all medication_object meds\<close>, of vr1] show ?case by simp
qed

lemma number_comparable:
  "is_number c \<Longrightarrow> \<exists>low. py_lt_float c t = Some low"
  by (cases c rule: py_lt_float.cases [of "(v, t)" for v t]) auto

lemma validate_total_on_records:
  assumes "prescription_record dat"
  shows "\<exists>vr. validate_prescription repr dat = Inr vr"
proof (cases dat)
  case (JObj d)
  from assms JObj have num: "is_number (py_get_default d ''confidence_score'' (JInt 0))"
    by simp
  from number_comparable [OF num, of confidence_threshold] obtain low where
    "py_lt_float (py_get_default d ''confidence_score'' (JInt 0)) confidence_threshold
     = Some low" ..
  then have conf: "\<exists>vr'. check_confidence d vr = Inr vr'" for vr
    by (simp add: check_confidence_def)
  from assms JObj obtain meds where
    iter: "py_iter (py_get_default d ''medications'' (JArr [])) = Some meds" and
    objs: "list_all medication_object meds" and
    any: "\<exists>vr'. check_any_medication d vr = Inr vr'" for vr
    by (auto simp: py_get_default_def py_get_def check_any_medication_def no_medications_def
          split: option.splits json.splits)
  from any [of "check_names d"] obtain vr3 where
    vr3: "check_any_medication d (check_names d) = Inr vr3" ..
  from check_medications_objects [OF objs, of repr vr3] obtain vr4 where
    vr4: "check_medications repr meds vr3 = Inr vr4" ..
  from conf [of vr4] vr3 vr4 iter JObj show ?thesis by simp
qed (use assms in simp_all)


text \<open>
  C2. Whenever \<^verbatim>\<open>validate_prescription\<close> answers with a result (on any request body,
  and whatever that result's warnings are), \<^verbatim>\<open>is_valid\<close> is false if and only if
  the \<^verbatim>\<open>errors\<close> list is non-empty: every statement that appends an error also
  clears the flag, and nothing else touches either.
\<close>

theorem validate_is_valid_iff_no_errors:
  assumes "validate_prescription repr dat = Inr vr"
  shows "(\<not> is_valid vr) = (errors vr \<noteq> [])"
proof (cases dat)
  case (JObj d)
  with assms obtain vr3 meds vr4 where
    any: "check_any_medication d (check_names d) = Inr vr3" and
    loop: "check_medications repr meds vr3 = Inr vr4" and
    conf: "check_confidence d vr4 = Inr vr"
    by (auto split: sum.splits option.splits)
  have "is_valid vr3 = (errors vr3 = [])"
    by (rule check_any_medication_valid_iff [OF any]) (simp add: check_names_valid)
  from check_medications_valid_iff [OF loop this] check_confidence_same [OF conf]
  show ?thesis by simp
qed (use assms in simp_all)

text \<open>
  An instance: a record with one medication without a name and no doctor's name has
  one error and one warning, and is not valid.
\<close>

theorem validate_is_valid_iff_no_errors_witness:
  "validate_prescription repr_placeholder (JObj [(''patient_name'', JStr ''Jane''),
       (''medications'', JArr [JObj [(''name'', JStr []), (''dosage'', JStr ''5 mg'')]]),
       (''confidence_score'', JFloat (Fin (9 / 10)))])
   = Inr \<lparr>is_valid = False, warnings = [''Doctor name is missing''],
           errors = [''Medication name missing'']\<rparr>
   \<and> (\<not> is_valid \<lparr>is_valid = False, warnings = [''Doctor name is missing''],
           errors = [''Medication name missing'']\<rparr>)
     = (errors \<lparr>is_valid = False, warnings = [''Doctor name is missing''],
           errors = [''Medication name missing'']\<rparr> \<noteq> [])"
proof -
  have run: "validate_prescription repr_placeholder (JObj [(''patient_name'', JStr ''Jane''),
       (''medications'', JArr [JObj [(''name'', JStr []), (''dosage'', JStr ''5 mg'')]]),
       (''confidence_score'', JFloat (Fin (9 / 10)))])
   = Inr \<lparr>is_valid = False, warnings = [''Doctor name is missing''],
           errors = [''Medication name missing'']\<rparr>"
    by (simp add: check_names_def check_any_medication_def no_medications_def
        check_confidence_def py_get_def py_get_default_def confidence_threshold_def Let_def)
  from validate_is_valid_iff_no_errors [OF run] run show ?thesis by blast
qed

lemma check_medication_complete:
  "complete_entry med \<Longrightarrow> check_medication repr med vr = Inr vr"
  by (cases med; cases "py_get (case med of JObj m \<Rightarrow> m) ''name''";
      cases "py_get (case med of JObj m \<Rightarrow> m) ''dosage''")
     (auto simp: Let_def)

lemma check_medications_complete:
  "list_all complete_entry meds \<Longrightarrow> check_medications repr meds vr = Inr vr"
  by (induction meds) (simp_all add: check_medication_complete)

text \<open>
  C3, as the specification states it, fails on the empty medication list: every
  hypothesis holds of the record below (the element-wise one vacuously), and line 168
  records the error \<^verbatim>\<open>No medications found\<close> and clears \<^verbatim>\<open>is_valid\<close>.
\<close>

theorem validate_complete_record_counterexample:
  "nonempty_text (py_get [(''patient_name'', JStr ''Jane''), (''doctor_name'', JStr ''Dr. X''),
                          (''medications'', JArr []),
                          (''confidence_score'', JFloat (Fin (9 / 10)))] ''patient_name'')
   \<and> nonempty_text (py_get [(''patient_name'', JStr ''Jane''), (''doctor_name'', JStr ''Dr. X''),
                          (''medications'', JArr []),
                          (''confidence_score'', JFloat (Fin (9 / 10)))] ''doctor_name'')
   \<and> list_all complete_entry []
   \<and> at_least_threshold (JFloat (Fin (9 / 10)))
   \<and> validate_prescription repr_placeholder
        (JObj [(''patient_name'', JStr ''Jane''), (''doctor_name'', JStr ''Dr. X''),
               (''medications'', JArr []),
               (''confidence_score'', JFloat (Fin (9 / 10)))])
      = Inr \<lparr>is_valid = False, warnings = [], errors = [''No medications found'']\<rparr>"
  by (simp add: check_names_def check_any_medication_def no_medications_def
      check_confidence_def py_get_def py_get_default_def confidence_threshold_def Let_def)

text \<open>
  C3, amended: for every record whose \<^verbatim>\<open>medications\<close> list is non-empty and has only
  entries with a non-empty \<^verbatim>\<open>name\<close> and a non-empty \<^verbatim>\<open>dosage\<close>, whose
  \<^verbatim>\<open>patient_name\<close> and \<^verbatim>\<open>doctor_name\<close> are non-empty and whose
  \<^verbatim>\<open>confidence_score\<close> is at least 0.85, \<^verbatim>\<open>validate_prescription\<close> answers
  \<^verbatim>\<open>is_valid == true\<close> with no warning (and no error).
\<close>

theorem validate_complete_record:
  assumes "nonempty_text (py_get dat ''patient_name'')"
      and "nonempty_text (py_get dat ''doctor_name'')"
      and "map_of dat ''medications'' = Some (JArr meds)"
      and "meds \<noteq> []"
      and "list_all complete_entry meds"
      and "map_of dat ''confidence_score'' = Some c"
      and "at_least_threshold c"
  shows "validate_prescription repr (JObj dat)
         = Inr \<lparr>is_valid = True, warnings = [], errors = []\<rparr>"
proof -
  have names: "check_names dat = \<lparr>is_valid = True, warnings = [], errors = []\<rparr>"
    using assms(1,2)
    by (cases "py_get dat ''patient_name''"; cases "py_get dat ''doctor_name''")
       (simp_all add: check_names_def Let_def)
  have any: "check_any_medication dat vr = Inr vr" for vr
    using assms(3,4) by (simp add: check_any_medication_def no_medications_def py_get_def)
  have iter: "py_iter (py_get_default dat ''medications'' (JArr [])) = Some meds"
    using assms(3) by (simp add: py_get_default_def)
  have conf: "check_confidence dat vr = Inr vr" for vr
    using assms(6,7)
    by (cases c rule: at_least_threshold.cases)
       (simp_all add: check_confidence_def py_get_default_def not_less)
  show ?thesis
    by (simp add: names any iter conf check_medications_complete [OF assms(5)])
qed

theorem validate_complete_record_witness:
  "validate_prescription repr_placeholder
     (JObj [(''patient_name'', JStr ''Jane''), (''doctor_name'', JStr ''Dr. X''),
            (''medications'',
             JArr [JObj [(''name'', JStr ''Amoxicillin''), (''dosage'', JStr ''500 mg'')]]),
            (''confidence_score'', JFloat (Fin (9 / 10)))])
   = Inr \<lparr>is_valid = True, warnings = [], errors = []\<rparr>"
  by (rule validate_complete_record
        [where meds = "[JObj [(''name'', JStr ''Amoxicillin''), (''dosage'', JStr ''500 mg'')]]"
           and c = "JFloat (Fin (9 / 10))"])
     (simp_all add: py_get_def confidence_threshold_def)

text \<open>
  C7. For every record whose \<^verbatim>\<open>medications\<close> list is empty (and whose
  \<^verbatim>\<open>confidence_score\<close>, when present, is a number, as the data model has it),
  \<^verbatim>\<open>validate_prescription\<close> answers with \<^verbatim>\<open>is_valid == false\<close> and exactly one
  error, \<^verbatim>\<open>No medications found\<close>.
\<close>

theorem validate_empty_medications:
  assumes "map_of dat ''medications'' = Some (JArr [])"
      and "is_number (py_get_default dat ''confidence_score'' (JInt 0))"
  shows "\<exists>vr. validate_prescription repr (JObj dat) = Inr vr \<and> \<not> is_valid vr
           \<and> errors vr = [''No medications found'']"
proof -
  have any: "check_any_medication dat vr
             = Inr (vr\<lparr>errors := errors vr @ [''No medications found''], is_valid := False\<rparr>)"
    for vr
    using assms(1) by (simp add: check_any_medication_def no_medications_def py_get_def)
  have iter: "py_iter (py_get_default dat ''medications'' (JArr [])) = Some []"
    using assms(1) by (simp add: py_get_default_def)
  obtain low where low:
    "py_lt_float (py_get_default dat ''confidence_score'' (JInt 0)) confidence_threshold
     = Some low"
    using assms(2)
    by (cases "py_get_default dat ''confidence_score'' (JInt 0)"
          rule: py_lt_float.cases [of "(v, t)" for v t])
       auto
  show ?thesis
    by (simp add: any iter check_confidence_def low check_names_valid)
qed

theorem validate_empty_medications_witness:
  "\<exists>vr. validate_prescription repr_placeholder
          (JObj [(''patient_name'', JStr []), (''medications'', JArr [])]) = Inr vr
        \<and> \<not> is_valid vr \<and> errors vr = [''No medications found'']"
  by (rule validate_empty_medications) (simp_all add: py_get_default_def)

lemma py_get_upd:
  "map_of d' = (map_of d)(k \<mapsto> e) \<Longrightarrow> py_get d' k' = (if k' = k then e else py_get d k')"
  "map_of d' = (map_of d)(k \<mapsto> e) \<Longrightarrow>
   py_get_default d' k' dflt = (if k' = k then e else py_get_default d k' dflt)"
  by (simp_all add: py_get_def py_get_default_def)

lemma py_get_absent:
  "map_of d k = None \<Longrightarrow> py_get d k = JNull"
  "map_of d k = None \<Longrightarrow> py_get_default d k dflt = dflt"
  by (simp_all add: py_get_def py_get_default_def)

lemma validate_stagewise:
  assumes "check_names d' = check_names d"
      and "\<And>vr. check_any_medication d' vr = check_any_medication d vr"
      and "py_iter (py_get_default d' ''medications'' (JArr []))
           = py_iter (py_get_default d ''medications'' (JArr []))"
      and "\<And>vr. check_confidence d' vr = check_confidence d vr"
  shows "validate_prescription repr (JObj d') = validate_prescription repr (JObj d)"
  by (simp add: assms cong: sum.case_cong option.case_cong)

text \<open>
  C9. \<^verbatim>\<open>validate_prescription\<close> treats an absent field as its empty value: if the
  record \<open>d\<close> has no key \<open>k\<close>, and \<open>d'\<close> is \<open>d\<close> with \<open>k\<close> set to \<open>e\<close>, where
  \<open>(k, e)\<close> is \<^verbatim>\<open>medications\<close> with \<^verbatim>\<open>[]\<close>, or \<^verbatim>\<open>patient_name\<close> or
  \<^verbatim>\<open>doctor_name\<close> with the empty string, then both records get exactly the same
  answer (the same result, or the same failure).
\<close>

theorem validate_absent_is_empty:
  assumes "map_of d k = None"
      and "map_of d' = (map_of d)(k \<mapsto> e)"
      and "(k, e) \<in> {(''medications'', JArr []), (''patient_name'', JStr []),
                      (''doctor_name'', JStr [])}"
  shows "validate_prescription repr (JObj d') = validate_prescription repr (JObj d)"
proof (rule validate_stagewise)
  note upd = py_get_upd [OF assms(2)] py_get_absent [OF assms(1)]
  from assms(3) have ke:
    "k = ''medications'' \<and> e = JArr [] \<or> k = ''patient_name'' \<and> e = JStr []
     \<or> k = ''doctor_name'' \<and> e = JStr []"
    by simp
  show "check_names d' = check_names d"
    using ke by (auto simp: check_names_def Let_def upd)
  show "check_any_medication d' vr = check_any_medication d vr" for vr
    using ke by (auto simp: check_any_medication_def no_medications_def upd)
  show "py_iter (py_get_default d' ''medications'' (JArr []))
        = py_iter (py_get_default d ''medications'' (JArr []))"
    using ke by (auto simp: upd)
  show "check_confidence d' vr = check_confidence d vr" for vr
    using ke by (auto simp: check_confidence_def upd)
qed

theorem validate_absent_is_empty_witness:
  "validate_prescription repr_placeholder
     (JObj [(''doctor_name'', JStr ''Dr. X''), (''medications'', JArr [])])
   = validate_prescription repr_placeholder (JObj [(''doctor_name'', JStr ''Dr. X'')])"
  by (rule validate_absent_is_empty [where k = "''medications''" and e = "JArr []"])
     (simp_all add: fun_eq_iff)

subsection \<open>The response normaliser: the record\<close>

lemma round_2_float: "\<exists>pct. round_2 (JFloat f) = Some pct"
  by (cases f) simp_all

lemma number_percentage:
  "is_number c \<Longrightarrow> \<exists>pct. Option.bind (times_100 c) round_2 = Some pct"
proof (cases c rule: times_100.cases)
  case (3 q)
  then show ?thesis by (simp add: round_2_float)
qed (auto simp: round_2_float)


lemma analyze_object:
  assumes "loads (strip_fences response) = Inr (JObj result)"
  shows "analyze_prescription loads now response =
    (case Option.bind (times_100 (py_get_default result ''confidence_score'' (JFloat (Fin 0)))) round_2 of
       None \<Rightarrow> Inl Failed_to_analyze_prescription
     | Some pct \<Rightarrow> Inr (AList.update ''accuracy_percentage'' pct
          (AList.update ''model_version'' (JStr ''gemini-1.5-flash'')
            (AList.update ''analyzed_at'' (JStr now) result))))"
  using assms
  by (simp add: analyze_prescription_def Let_def py_get_default_def update_conv'
      split: option.splits)





lemma scenario_A_clean: \<open>strip_fences scenario_A = ''{"patient_name":"","medications":[]}''\<close>
  unfolding scenario_A_def by code_simp

lemma scenario_A_loads:
  \<open>json_loads ''{"patient_name":"","medications":[]}''
   = Inr (JObj [(''patient_name'', JStr []), (''medications'', JArr [])])\<close>
  by code_simp

lemma scenario_A_parsed:
  "json_loads (strip_fences scenario_A)
   = Inr (JObj [(''patient_name'', JStr []), (''medications'', JArr [])])"
  by (simp add: scenario_A_clean scenario_A_loads)





text \<open>
  C10. The record of a successful run has every key of the parsed payload with its
  parsed value, whatever the key is, except the three keys \<^verbatim>\<open>analyzed_at\<close>,
  \<^verbatim>\<open>model_version\<close> and \<^verbatim>\<open>accuracy_percentage\<close>, which the handler sets itself
  (to the time of the run, the model's name, and the percentage computed from the
  payload's \<^verbatim>\<open>confidence_score\<close>), overwriting what the payload had there.
\<close>

theorem analyze_frame:
  assumes "analyze_prescription loads now response = Inr presc"
  shows "\<exists>result pct. loads (strip_fences response) = Inr (JObj result)
           \<and> (\<forall>k. k \<notin> owned_keys \<longrightarrow> map_of presc k = map_of result k)
           \<and> map_of presc ''analyzed_at'' = Some (JStr now)
           \<and> map_of presc ''model_version'' = Some (JStr ''gemini-1.5-flash'')
           \<and> map_of presc ''accuracy_percentage'' = Some pct
           \<and> Option.bind (times_100 (py_get_default result ''confidence_score'' (JFloat (Fin 0))))
                 round_2 = Some pct"
proof -
  from assms obtain result where
    parsed: "loads (strip_fences response) = Inr (JObj result)"
    by (auto simp: analyze_prescription_def Let_def split: sum.splits decode_error.splits json.splits)
  from assms obtain pct where
    pct: "Option.bind (times_100 (py_get_default result ''confidence_score'' (JFloat (Fin 0))))
            round_2 = Some pct" and
    presc: "presc = AList.update ''accuracy_percentage'' pct
          (AList.update ''model_version'' (JStr ''gemini-1.5-flash'')
            (AList.update ''analyzed_at'' (JStr now) result))"
    by (auto simp: analyze_object [where loads = loads and response = response, OF parsed] split: option.splits)
  show ?thesis
    using parsed pct by (auto simp: presc update_conv' owned_keys_def)
qed

theorem analyze_frame_witness:
  "\<exists>result pct. json_loads (strip_fences scenario_A) = Inr (JObj result)
     \<and> (\<forall>k. k \<notin> owned_keys \<longrightarrow>
            map_of [(''patient_name'', JStr []), (''medications'', JArr []),
                    (''analyzed_at'', JStr ''2024-05-01T10:00:00''),
                    (''model_version'', JStr ''gemini-1.5-flash''),
                    (''accuracy_percentage'', JFloat (Fin 0))] k = map_of result k)
     \<and> map_of [(''patient_name'', JStr []), (''medications'', JArr []),
                    (''analyzed_at'', JStr ''2024-05-01T10:00:00''),
                    (''model_version'', JStr ''gemini-1.5-flash''),
                    (''accuracy_percentage'', JFloat (Fin 0))] ''analyzed_at''
         = Some (JStr ''2024-05-01T10:00:00'')
     \<and> map_of [(''patient_name'', JStr []), (''medications'', JArr []),
                    (''analyzed_at'', JStr ''2024-05-01T10:00:00''),
                    (''model_version'', JStr ''gemini-1.5-flash''),
                    (''accuracy_percentage'', JFloat (Fin 0))] ''model_version''
         = Some (JStr ''gemini-1.5-flash'')
     \<and> map_of [(''patient_name'', JStr []), (''medications'', JArr []),
                    (''analyzed_at'', JStr ''2024-05-01T10:00:00''),
                    (''model_version'', JStr ''gemini-1.5-flash''),
                    (''accuracy_percentage'', JFloat (Fin 0))] ''accuracy_percentage'' = Some pct
     \<and> Option.bind (times_100 (py_get_default result ''confidence_score'' (JFloat (Fin 0))))
           round_2 = Some pct"
  by (rule analyze_frame)
     (simp add: analyze_object [where loads = json_loads and response = scenario_A, OF scenario_A_parsed] py_get_default_def
        b64_def round_half_even_def)









text \<open>
  C5. For every parsed payload whose \<^verbatim>\<open>confidence_score\<close> is a number in
  \<^verbatim>\<open>[0.0, 1.0]\<close>, the handler succeeds and the record's \<^verbatim>\<open>accuracy_percentage\<close>
  is \<^verbatim>\<open>round(confidence_score * 100, 2)\<close>, whatever else the payload holds, an
  \<^verbatim>\<open>accuracy_percentage\<close> of its own included.
\<close>

theorem analyze_accuracy_percentage:
  assumes "loads (strip_fences response) = Inr (JObj result)"
      and "map_of result ''confidence_score'' = Some c"
      and "in_unit_interval c"
  shows "\<exists>presc pct. analyze_prescription loads now response = Inr presc
           \<and> Option.bind (times_100 c) round_2 = Some pct
           \<and> map_of presc ''accuracy_percentage'' = Some pct"
proof -
  from assms(3) have "is_number c" by (cases c rule: in_unit_interval.cases) simp_all
  with number_percentage [of c] obtain pct where
    "Option.bind (times_100 c) round_2 = Some pct" by blast
  with assms(2) show ?thesis
    by (simp add: analyze_object [where loads = loads and response = response, OF assms(1)]
          py_get_default_def update_conv')
qed

lemma loads_half:
  \<open>json_loads (strip_fences ''{"confidence_score": 0.5, "accuracy_percentage": 99}'')
   = Inr (JObj [(''confidence_score'', JFloat (Fin (1 / 2))), (''accuracy_percentage'', JInt 99)])\<close>
  by code_simp

lemma percentage_half:
  "Option.bind (times_100 (JFloat (Fin (1 / 2)))) round_2 = Some (JFloat (Fin 50))"
  by code_simp

text \<open>A payload that claims 99 percent for the score 0.5 gets 50.0.\<close>

theorem analyze_accuracy_percentage_witness:
  \<open>\<exists>presc. analyze_prescription json_loads ''2024-05-01T10:00:00''
             ''{"confidence_score": 0.5, "accuracy_percentage": 99}'' = Inr presc
     \<and> map_of presc ''accuracy_percentage'' = Some (JFloat (Fin 50))\<close>
  using analyze_accuracy_percentage [where loads = json_loads
      and now = "''2024-05-01T10:00:00''" and c = "JFloat (Fin (1 / 2))", OF loads_half]
    percentage_half
  by auto


subsection \<open>The response normaliser: fences\<close>

lemma py_strip_pad:
  assumes "trimmed q" and a: "\<forall>c\<in>set a. isspace c" and b: "\<forall>c\<in>set b. isspace c"
  shows "py_strip (a @ q @ b) = q"
proof (cases "q = []")
  case True
  have d: "dropWhile isspace (a @ b) = []" using a b by auto
  show ?thesis unfolding py_strip_def True append_Nil d by simp
next
  case False
  with assms(1) have h: "\<not> isspace (hd q)" and l: "\<not> isspace (last q)"
    by (auto simp: trimmed_def)
  have "dropWhile isspace (a @ q @ b) = dropWhile isspace (q @ b)"
    using a by simp
  also have "\<dots> = q @ b"
    using False h by (simp add: dropWhile_eq_self_iff)
  finally have front: "dropWhile isspace (a @ q @ b) = q @ b" .
  have "dropWhile isspace (rev b @ rev q) = dropWhile isspace (rev q)"
    by (rule dropWhile_append2) (use b in auto)
  also have "\<dots> = rev q"
    using False l by (simp add: dropWhile_eq_self_iff hd_rev)
  finally show ?thesis
    by (simp add: py_strip_def front)
qed

lemma py_strip_decomp:
  "\<exists>a b. p = a @ py_strip p @ b \<and> (\<forall>c\<in>set a. isspace c) \<and> (\<forall>c\<in>set b. isspace c)
         \<and> trimmed (py_strip p)"
proof -
  define r where "r = dropWhile isspace p"
  define a where "a = takeWhile isspace p"
  define b where "b = rev (takeWhile isspace (rev r))"
  have q: "py_strip p = rev (dropWhile isspace (rev r))"
    by (simp add: py_strip_def r_def)
  have "rev (takeWhile isspace (rev r) @ dropWhile isspace (rev r)) = r"
    by simp
  then have r: "r = py_strip p @ b"
    unfolding q b_def by (simp del: takeWhile_dropWhile_id)
  have p: "p = a @ py_strip p @ b"
    unfolding r [symmetric] a_def r_def by simp
  have wa: "\<forall>c\<in>set a. isspace c"
    unfolding a_def by (auto dest: set_takeWhileD)
  have wb: "\<forall>c\<in>set b. isspace c"
    unfolding b_def by (auto dest: set_takeWhileD)
  have "trimmed (py_strip p)"
  proof (cases "py_strip p = []")
    case True
    then show ?thesis by (simp add: trimmed_def)
  next
    case False
    then have ne: "dropWhile isspace (rev r) \<noteq> []" by (simp add: q)
    have "last (py_strip p) = hd (dropWhile isspace (rev r))"
      unfolding q by (simp add: last_rev)
    with hd_dropWhile [OF ne] have l: "\<not> isspace (last (py_strip p))" by simp
    from False r have "r \<noteq> []" "hd (py_strip p) = hd r" by auto
    with hd_dropWhile [of isspace p] have h: "\<not> isspace (hd (py_strip p))"
      by (simp add: r_def)
    from h l show ?thesis by (simp add: trimmed_def)
  qed
  with p wa wb show ?thesis by blast
qed

lemma py_strip_idem: "py_strip (py_strip p) = py_strip p"
proof -
  from py_strip_decomp [of p] have "trimmed (py_strip p)" by blast
  from py_strip_pad [OF this, of "[]" "[]"] show ?thesis by simp
qed

lemma strip_fences_steps:
  assumes "py_strip r = t0"
      and "t1 = (if prefix ''```json'' t0 then drop 7 t0 else t0)"
      and "t2 = (if prefix ''```'' t1 then drop 3 t1 else t1)"
      and "t3 = (if suffix ''```'' t2 then take (length t2 - 3) t2 else t2)"
  shows "strip_fences r = py_strip t3"
  using assms by (simp add: strip_fences_def Let_def startswith_def endswith_def)

lemma prefix_overlap:
  assumes "prefix xs (ys @ zs)" and "\<not> prefix xs ys"
  shows "zs \<noteq> [] \<and> hd zs \<in> set xs \<and> prefix ys xs"
proof -
  from assms obtain us where us: "xs = ys @ us" "prefix us zs"
    by (auto simp: prefix_append)
  with assms(2) have "us \<noteq> []" by auto
  with us show ?thesis by (cases us; cases zs) auto
qed

lemma suffix_overlap:
  assumes "suffix xs (ys @ zs)" and "\<not> suffix xs zs"
  shows "ys \<noteq> [] \<and> last ys \<in> set xs"
proof -
  from assms obtain us where us: "suffix us ys" "xs = us @ zs"
    by (auto simp: suffix_append)
  with assms(2) have "us \<noteq> []" by auto
  with us show ?thesis by (auto simp: suffix_def)
qed

lemma not_space [simp]:
  "\<not> isspace (CHR ''`'')" "\<not> isspace (CHR ''j'')" "\<not> isspace (CHR ''s'')"
  "\<not> isspace (CHR ''o'')" "\<not> isspace (CHR ''n'')"
  by (simp_all add: isspace_def)

lemma strip_fences_clean:
  assumes "\<not> prefix ''```'' (py_strip p)" and "\<not> suffix ''```'' (py_strip p)"
  shows "strip_fences p = py_strip p"
proof -
  have "\<not> prefix ''```json'' (py_strip p)" using assms(1) by (auto simp: prefix_def)
  then show ?thesis using assms
    by (simp add: strip_fences_def Let_def startswith_def endswith_def py_strip_idem)
qed

lemma no_prefix_after_space:
  "u \<noteq> [] \<Longrightarrow> \<forall>c\<in>set u. isspace c \<Longrightarrow> \<not> isspace k \<Longrightarrow> \<not> prefix (k # ks) (u @ x)"
  by (cases u) auto

lemma no_fence_suffix_after_space:
  assumes "\<not> suffix ''```'' q" and "\<forall>c\<in>set u. isspace c"
  shows "\<not> suffix ''```'' (u @ q)"
proof
  assume "suffix ''```'' (u @ q)"
  from suffix_overlap [OF this assms(1)] have "u \<noteq> []" "last u = CHR ''`''" by auto
  then have "CHR ''`'' \<in> set u" using last_in_set by metis
  with assms(2) show False by auto
qed

lemma no_tag_in_padding:
  assumes "\<forall>c\<in>set v. isspace c" and "t = ''```'' \<or> t = []"
  shows "\<not> (v @ t \<noteq> [] \<and> hd (v @ t) \<in> set ''json'')"
proof (cases v)
  case Nil
  with assms(2) show ?thesis by auto
next
  case (Cons c cs)
  with assms(1) have "isspace c" by simp
  with Cons show ?thesis by auto
qed

lemma strip_fences_closed_tagged:
  assumes tq: "trimmed q" and nf: "\<not> prefix ''```'' q" "\<not> suffix ''```'' q"
    and u: "\<forall>c\<in>set u. isspace c" and v: "\<forall>c\<in>set v. isspace c"
  shows "strip_fences (''```json'' @ u @ q @ v @ ''```'') = q"
proof -
  let ?X = "''```json'' @ u @ q @ v @ ''```''"
  have "trimmed ?X" by (simp add: trimmed_def)
  from py_strip_pad [OF this, of "[]" "[]"] have t0: "py_strip ?X = ?X" by simp
  have t1: "u @ q @ v @ ''```'' = (if prefix ''```json'' ?X then drop 7 ?X else ?X)"
    by simp
  show ?thesis
  proof (cases "prefix ''```'' (u @ q @ v @ ''```'')")
    case False
    have t2: "u @ q @ v @ ''```''
      = (if prefix ''```'' (u @ q @ v @ ''```'') then drop 3 (u @ q @ v @ ''```'')
         else u @ q @ v @ ''```'')"
      using False by simp
    have "suffix ''```'' ((u @ q @ v) @ ''```'')" by (rule suffixI) simp
    then have t3: "u @ q @ v
      = (if suffix ''```'' (u @ q @ v @ ''```'')
         then take (length (u @ q @ v @ ''```'') - 3) (u @ q @ v @ ''```'')
         else u @ q @ v @ ''```'')"
      by simp
    from strip_fences_steps [OF t0 t1 t2 t3] py_strip_pad [OF tq u v]
    show ?thesis by simp
  next
    case True
    have "u = []"
    proof (rule ccontr)
      assume "u \<noteq> []"
      from no_prefix_after_space [OF this u, of "CHR ''`''"] True show False by simp
    qed
    with True have "prefix ''```'' (q @ v @ ''```'')" by simp
    from prefix_overlap [OF this nf(1)]
    have hd: "hd (v @ ''```'') \<in> set ''```''" and pq: "prefix q ''```''" by auto
    have "v = []"
    proof (cases v)
      case (Cons c cs)
      with v hd show ?thesis by auto
    qed simp
    from pq nf(1) have "q = [] \<or> q = ''`'' \<or> q = ''``''"
      by (auto simp: prefix_Cons)
    then show ?thesis
      unfolding \<open>u = []\<close> \<open>v = []\<close>
      by (elim disjE) (simp_all add: strip_fences_def startswith_def endswith_def
            py_strip_def isspace_def Let_def suffix_Cons)
  qed
qed


lemma no_json_prefix:
  assumes nj: "\<not> (u = [] \<and> prefix ''json'' q)"
    and u: "\<forall>c\<in>set u. isspace c" and v: "\<forall>c\<in>set v. isspace c"
    and t: "t = ''```'' \<or> t = []"
  shows "\<not> prefix ''json'' (u @ q @ v @ t)"
proof
  assume p: "prefix ''json'' (u @ q @ v @ t)"
  show False
  proof (cases "u = []")
    case False
    from no_prefix_after_space [OF this u, of "CHR ''j''"] p show False by simp
  next
    case True
    with nj have "\<not> prefix ''json'' q" by simp
    with p True have "v @ t \<noteq> [] \<and> hd (v @ t) \<in> set ''json''"
      using prefix_overlap [of "''json''" q "v @ t"] by simp
    with no_tag_in_padding [OF v t] show False by blast
  qed
qed

lemma strip_fences_closed_bare:
  assumes tq: "trimmed q"
    and u: "\<forall>c\<in>set u. isspace c" and v: "\<forall>c\<in>set v. isspace c"
    and nj: "\<not> (u = [] \<and> prefix ''json'' q)"
  shows "strip_fences (''```'' @ u @ q @ v @ ''```'') = q"
proof -
  let ?X = "''```'' @ u @ q @ v @ ''```''"
  have "trimmed ?X" by (simp add: trimmed_def)
  from py_strip_pad [OF this, of "[]" "[]"] have t0: "py_strip ?X = ?X" by simp
  from no_json_prefix [OF nj u v, of "''```''"]
  have t1: "?X = (if prefix ''```json'' ?X then drop 7 ?X else ?X)"
    by simp
  have t2: "u @ q @ v @ ''```'' = (if prefix ''```'' ?X then drop 3 ?X else ?X)"
    by simp
  have "suffix ''```'' ((u @ q @ v) @ ''```'')" by (rule suffixI) simp
  then have t3: "u @ q @ v
    = (if suffix ''```'' (u @ q @ v @ ''```'')
       then take (length (u @ q @ v @ ''```'') - 3) (u @ q @ v @ ''```'')
       else u @ q @ v @ ''```'')"
    by simp
  from strip_fences_steps [OF t0 t1 t2 t3] py_strip_pad [OF tq u v]
  show ?thesis by simp
qed

lemma strip_fences_open:
  assumes tq: "trimmed q" and nf: "\<not> prefix ''```'' q" "\<not> suffix ''```'' q"
    and u: "\<forall>c\<in>set u. isspace c" and v: "\<forall>c\<in>set v. isspace c"
    and nj: "\<not> (style = Bare \<and> u = [] \<and> prefix ''json'' q)"
  shows "strip_fences (opening_fence style @ u @ q @ v) = q"
proof (cases "q = []")
  case True
  have "trimmed (opening_fence style)" by (cases style) (simp_all add: trimmed_def)
  then have "py_strip ([] @ opening_fence style @ (u @ v)) = opening_fence style"
    by (rule py_strip_pad) (use u v in auto)
  then have t0: "py_strip (opening_fence style @ u @ q @ v) = opening_fence style"
    by (simp add: True)
  from strip_fences_steps [OF t0 refl refl refl] show ?thesis
    by (cases style) (simp_all add: True py_strip_def)
next
  case False
  let ?lead = "opening_fence style"
  from tq False have l: "\<not> isspace (last q)" by (simp add: trimmed_def)
  have "trimmed (?lead @ u @ q)"
    using False l by (cases style) (simp_all add: trimmed_def)
  from py_strip_pad [OF this, of "[]" v] v
  have t0: "py_strip (?lead @ u @ q @ v) = ?lead @ u @ q" by simp
  have npre: "\<not> prefix ''```'' (u @ q)"
  proof (cases "u = []")
    case True
    with nf(1) show ?thesis by simp
  next
    case False
    from no_prefix_after_space [OF this u, of "CHR ''`''"] show ?thesis by simp
  qed
  have nsuf: "\<not> suffix ''```'' (u @ q)"
    by (rule no_fence_suffix_after_space [OF nf(2) u])
  have t1: "u @ q = (if prefix ''```'' (u @ q) then drop 3 (u @ q) else u @ q)"
    using npre by simp
  have t3: "u @ q = (if suffix ''```'' (u @ q) then take (length (u @ q) - 3) (u @ q)
                      else u @ q)"
    using nsuf by simp
  have pad: "py_strip (u @ q) = q"
    using py_strip_pad [OF tq u, of "[]"] by simp
  show ?thesis
  proof (cases style)
    case Tagged
    have "u @ q = (if prefix ''```json'' (?lead @ u @ q) then drop 7 (?lead @ u @ q)
                   else ?lead @ u @ q)"
      by (simp add: Tagged)
    from strip_fences_steps [OF t0 this t1 t3] pad show ?thesis by (simp add: Tagged)
  next
    case Bare
    with nj have "\<not> (u = [] \<and> prefix ''json'' q)" by simp
    from no_json_prefix [OF this u, of "[]" "[]"]
    have a: "?lead @ u @ q = (if prefix ''```json'' (?lead @ u @ q)
                then drop 7 (?lead @ u @ q) else ?lead @ u @ q)"
      by (simp add: Bare)
    have b: "u @ q = (if prefix ''```'' (?lead @ u @ q) then drop 3 (?lead @ u @ q)
                      else ?lead @ u @ q)"
      by (simp add: Bare)
    from strip_fences_steps [OF t0 a b t3] pad show ?thesis by (simp add: Bare)
  qed
qed

lemma strip_fences_fenced:
  assumes tq: "trimmed q" and nf: "\<not> prefix ''```'' q" "\<not> suffix ''```'' q"
    and u: "\<forall>c\<in>set u. isspace c" and v: "\<forall>c\<in>set v. isspace c"
    and nj: "\<not> (style = Bare \<and> u = [] \<and> prefix ''json'' q)"
  shows "strip_fences (fenced style closing u v q) = q"
proof (cases closing)
  case False
  with strip_fences_open [OF assms] show ?thesis by (simp add: fenced_def)
next
  case True
  show ?thesis
  proof (cases style)
    case Tagged
    with True strip_fences_closed_tagged [OF tq nf u v] show ?thesis
      by (simp add: fenced_def)
  next
    case Bare
    with nj have "\<not> (u = [] \<and> prefix ''json'' q)" by simp
    from strip_fences_closed_bare [OF tq u v this] True Bare show ?thesis
      by (simp add: fenced_def)
  qed
qed

lemma fenced_pad:
  "fenced style closing w1 w2 (a @ q @ b) = fenced style closing (w1 @ a) (b @ w2) q"
  by (simp add: fenced_def)

lemma strip_fences_wrapped:
  assumes "clean_payload p"
    and w1: "list_all isspace w1" and w2: "list_all isspace w2"
    and nj: "\<not> (style = Bare \<and> w1 = [] \<and> prefix ''json'' p)"
  shows "strip_fences (fenced style closing w1 w2 p) = strip_fences p"
proof -
  from py_strip_decomp [of p] obtain a b where
    p: "p = a @ py_strip p @ b" and a: "\<forall>c\<in>set a. isspace c"
    and b: "\<forall>c\<in>set b. isspace c" and tq: "trimmed (py_strip p)"
    by blast
  let ?q = "py_strip p"
  from assms(1) have nf: "\<not> prefix ''```'' ?q" "\<not> suffix ''```'' ?q"
    by (simp_all add: clean_payload_def startswith_def endswith_def)
  have u: "\<forall>c\<in>set (w1 @ a). isspace c" using w1 a by (auto simp: list_all_iff)
  have v: "\<forall>c\<in>set (b @ w2). isspace c" using w2 b by (auto simp: list_all_iff)
  have nj': "\<not> (style = Bare \<and> w1 @ a = [] \<and> prefix ''json'' ?q)"
  proof
    assume h: "style = Bare \<and> w1 @ a = [] \<and> prefix ''json'' ?q"
    then have "p = ?q @ b" using p by simp
    with h have "prefix ''json'' p" by (metis prefix_prefix)
    with h nj show False by simp
  qed
  have "fenced style closing w1 w2 p = fenced style closing (w1 @ a) (b @ w2) ?q"
    using fenced_pad [of style closing w1 w2 a ?q b] p by simp
  with strip_fences_fenced [OF tq nf u v nj']
  have "strip_fences (fenced style closing w1 w2 p) = ?q" by simp
  moreover have "strip_fences p = ?q"
    by (rule strip_fences_clean [OF nf])
  ultimately show ?thesis by simp
qed

lemma analyze_same_text:
  assumes "strip_fences r = strip_fences r'"
  shows "map_sum id (AList.delete ''analyzed_at'') (analyze_prescription loads now r)
         = map_sum id (AList.delete ''analyzed_at'') (analyze_prescription loads now' r')"
proof (cases "loads (strip_fences r')")
  case (Inl e)
  with assms show ?thesis by (cases e) (simp_all add: analyze_prescription_def)
next
  case (Inr v)
  show ?thesis
  proof (cases v)
    case (JObj result)
    with Inr assms have p: "loads (strip_fences r) = Inr (JObj result)"
      "loads (strip_fences r') = Inr (JObj result)" by simp_all
    show ?thesis
      by (simp add: analyze_object [where loads = loads, OF p(1)]
            analyze_object [where loads = loads, OF p(2)]
            delete_update delete_update_same split: option.splits)
  qed (use Inr assms in \<open>simp_all add: analyze_prescription_def\<close>)
qed

text \<open>
  The tag is part of the bare fence's hypothesis below for a reason: a bare fence put
  directly before a text that starts with \<^verbatim>\<open>json\<close> reads as a tagged fence. No JSON
  text starts so.
\<close>

lemma bare_fence_before_tag:
  "strip_fences (fenced Bare False [] [] ''json{}'') = ''{}''"
  "strip_fences ''json{}'' = ''json{}''"
  by code_simp+

text \<open>
  C6. For every payload without fence markers, the handler's answer for the payload
  wrapped in a fence (opening fence with or without the \<^verbatim>\<open>json\<close> tag, closing fence
  or none, white space or nothing between fence and payload) is its answer for the
  bare payload, but for \<^verbatim>\<open>analyzed_at\<close>, which each run sets to its own time: the
  same record fields, or the same failure. For the bare fence put directly before the
  payload, the payload must not start with the letters \<^verbatim>\<open>json\<close>, which no JSON text
  does.
\<close>

theorem fenced_payload_same_record:
  assumes "clean_payload p"
      and "list_all isspace w1" and "list_all isspace w2"
      and "\<not> (style = Bare \<and> w1 = [] \<and> prefix ''json'' p)"
  shows "map_sum id (AList.delete ''analyzed_at'')
           (analyze_prescription loads now (fenced style closing w1 w2 p))
         = map_sum id (AList.delete ''analyzed_at'') (analyze_prescription loads now' p)"
proof -
  have "strip_fences (fenced style closing w1 w2 p) = strip_fences p"
    using assms by (rule strip_fences_wrapped)
  then show ?thesis
    by (rule analyze_same_text)
qed

text \<open>Scenario A and its bare payload, analysed at different times.\<close>

theorem fenced_payload_same_record_witness:
  \<open>map_sum id (AList.delete ''analyzed_at'')
     (analyze_prescription json_loads ''2024-05-01T10:00:00'' scenario_A)
   = map_sum id (AList.delete ''analyzed_at'')
     (analyze_prescription json_loads ''2024-06-30T23:59:59''
        ''{"patient_name":"","medications":[]}'')\<close>
proof -
  have w: "list_all isspace [CHR 0x0A]" by (simp add: isspace_def)
  have c: \<open>clean_payload ''{"patient_name":"","medications":[]}''\<close>
    by code_simp
  have f: \<open>fenced Tagged True [CHR 0x0A] [CHR 0x0A] ''{"patient_name":"","medications":[]}''
           = scenario_A\<close>
    by (simp add: fenced_def scenario_A_def)
  from fenced_payload_same_record [where loads = json_loads and style = Tagged
      and closing = True, OF c w w] f
  show ?thesis by simp
qed


end
